theory Spec2Isabelle
  imports Complex_Main "HOL-Library.Sublist"
begin

section \<open>The in-memory TTL cache of the WBJEE data server\<close>

text \<open>
  The server keeps two module-level variables: \<^verbatim>\<open>cache\<close>, a JavaScript \<^verbatim>\<open>Map\<close> from a key
  to \<^verbatim>\<open>{data, timestamp}\<close>, and \<^verbatim>\<open>cacheStats\<close>, an object of three counters. Every function
  below takes the state explicitly and returns the updated one. \<^verbatim>\<open>Date.now()\<close> is an
  input: an integer number of milliseconds, which may differ between two calls.
\<close>

subsection \<open>The JavaScript Map\<close>

text \<open>
  A \<^verbatim>\<open>Map\<close> keeps its entries in insertion order and holds a key at most once. It is an
  association list here: \<^verbatim>\<open>set\<close> on a key already present replaces its value in place,
  \<^verbatim>\<open>set\<close> on a new key appends, \<^verbatim>\<open>delete\<close> removes the key, \<^verbatim>\<open>size\<close> is the length.
\<close>

type_synonym ('k, 'v) js_map = "('k \<times> 'v) list"

fun map_get :: "('k, 'v) js_map \<Rightarrow> 'k \<Rightarrow> 'v option" where
  "map_get [] k = None"
| "map_get ((k', v') # m) k = (if k' = k then Some v' else map_get m k)"

fun map_set :: "('k, 'v) js_map \<Rightarrow> 'k \<Rightarrow> 'v \<Rightarrow> ('k, 'v) js_map" where
  "map_set [] k v = [(k, v)]"
| "map_set ((k', v') # m) k v = (if k' = k then (k, v) # m else (k', v') # map_set m k v)"

fun map_delete :: "('k, 'v) js_map \<Rightarrow> 'k \<Rightarrow> ('k, 'v) js_map" where
  "map_delete [] k = []"
| "map_delete ((k', v') # m) k = (if k' = k then map_delete m k else (k', v') # map_delete m k)"

definition map_size :: "('k, 'v) js_map \<Rightarrow> nat" where
  "map_size m = length m"

definition map_keys :: "('k, 'v) js_map \<Rightarrow> 'k list" where
  "map_keys m = map fst m"

text \<open>The association lists that are Maps: no key twice.\<close>

definition is_map :: "('k, 'v) js_map \<Rightarrow> bool" where
  "is_map m = distinct (map_keys m)"

subsection \<open>State\<close>

record cache_item =
  data :: string
  timestamp :: int

text \<open>
  The counters are JavaScript numbers that only ever hold non-negative integers; they
  are natural numbers here (the loss of exactness of a double beyond \<open>2 ^ 53\<close> is not
  modelled).
\<close>

record cache_stats =
  hits :: nat
  misses :: nat
  totalRequests :: nat

record server =
  cache :: "(string, cache_item) js_map"
  cacheStats :: cache_stats

definition CACHE_TTL :: int where
  "CACHE_TTL = 30 * 60 * 1000"

definition initial_state :: server where
  "initial_state = \<lparr>cache = [], cacheStats = \<lparr>hits = 0, misses = 0, totalRequests = 0\<rparr>\<rparr>"

subsection \<open>getCachedData, setCachedData, clearExpiredCache\<close>

text \<open>
  \<^verbatim>\<open>getCachedData(key)\<close>: \<^verbatim>\<open>null\<close> is \<open>None\<close>. The item of a Map entry is an object, hence
  truthy whenever present, so \<^verbatim>\<open>item && ...\<close> tests presence.
\<close>

definition getCachedData :: "string \<Rightarrow> int \<Rightarrow> server \<Rightarrow> string option" where
  "getCachedData key now s =
     (case map_get (cache s) key of
        None \<Rightarrow> None
      | Some item \<Rightarrow> if now - timestamp item < CACHE_TTL then Some (data item) else None)"

definition setCachedData :: "string \<Rightarrow> string \<Rightarrow> int \<Rightarrow> server \<Rightarrow> server" where
  "setCachedData key dat now s =
     s\<lparr>cache := map_set (cache s) key \<lparr>data = dat, timestamp = now\<rparr>\<rparr>"

text \<open>
  \<^verbatim>\<open>clearExpiredCache()\<close> reads the clock once and walks \<^verbatim>\<open>cache.entries()\<close>, deleting from
  the Map it is walking. A Map iterator is live, and deleting the entry just visited
  leaves the entries still to come as they are: \<open>sweep_loop\<close> takes the entries to visit
  and the Map being updated.
\<close>

fun sweep_loop ::
  "int \<Rightarrow> (string \<times> cache_item) list \<Rightarrow> (string, cache_item) js_map \<Rightarrow> (string, cache_item) js_map"
where
  "sweep_loop now [] m = m"
| "sweep_loop now ((key, item) # rest) m =
     sweep_loop now rest (if now - timestamp item > CACHE_TTL then map_delete m key else m)"

definition clearExpiredCache :: "int \<Rightarrow> server \<Rightarrow> server" where
  "clearExpiredCache now s = s\<lparr>cache := sweep_loop now (cache s) (cache s)\<rparr>"

subsection \<open>JavaScript numbers\<close>

text \<open>
  A JavaScript number is an IEEE 754 double. The finite doubles are rationals, and
  \<^verbatim>\<open>/\<close> and \<^verbatim>\<open>*\<close> give the double nearest to the exact quotient or product, a tie going to
  the even significand. \<open>to_double\<close> is that rounding to 53 significant bits: the
  exponent \<open>binade\<close> of the number is found from the bit lengths of its numerator and
  denominator, the number is scaled into \<open>[2 ^ 52, 2 ^ 53)\<close> and rounded to an integer. The
  exponent is not bounded here: overflow to \<^verbatim>\<open>Infinity\<close> and the subnormal numbers below
  \<open>2 ^ -1022\<close> are not modelled. Neither arises from counters, which are integers up to
  \<open>2 ^ 53\<close>.
\<close>

fun bit_length :: "nat \<Rightarrow> nat" where
  "bit_length n = (if n = 0 then 0 else Suc (bit_length (n div 2)))"

declare bit_length.simps [simp del]

definition round_half_even :: "rat \<Rightarrow> int" where
  "round_half_even y =
     (let f = \<lfloor>y\<rfloor>; r = y - of_int f
      in if r < 1 / 2 then f else if 1 / 2 < r then f + 1 else if even f then f else f + 1)"

definition binade :: "rat \<Rightarrow> int" where
  "binade x =
     (let (p, q) = quotient_of x;
          k = int (bit_length (nat p)) - int (bit_length (nat q))
      in if 2 powi k \<le> x then k else k - 1)"

definition to_double :: "rat \<Rightarrow> rat" where
  "to_double x =
     (if x = 0 then 0
      else let e = binade \<bar>x\<bar> - 52
           in sgn x * of_int (round_half_even (\<bar>x\<bar> / 2 powi e)) * 2 powi e)"

definition num_div :: "rat \<Rightarrow> rat \<Rightarrow> rat" where
  "num_div x y = to_double (x / y)"

definition num_mul :: "rat \<Rightarrow> rat \<Rightarrow> rat" where
  "num_mul x y = to_double (x * y)"

text \<open>
  \<^verbatim>\<open>Number.prototype.toFixed(f)\<close>, for a magnitude below \<open>10 ^ 21\<close>, works on the exact value
  of the double: the integer \<open>n\<close> with \<open>n / 10 ^ f\<close> nearest to it (the larger of two), its
  decimal digits padded with zeros to \<open>f + 1\<close> places, and a point before the last \<open>f\<close>.
\<close>

definition digit_char :: "nat \<Rightarrow> char" where
  "digit_char d = ''0123456789'' ! d"

fun show_nat :: "nat \<Rightarrow> string" where
  "show_nat n = (if n < 10 then [digit_char n] else show_nat (n div 10) @ [digit_char (n mod 10)])"

declare show_nat.simps [simp del]

definition toFixed :: "nat \<Rightarrow> rat \<Rightarrow> string" where
  "toFixed f x =
     (let n = nat \<lfloor>\<bar>x\<bar> * 10 ^ f + 1 / 2\<rfloor>;
          m = show_nat n;
          m' = replicate (f + 1 - length m) CHR ''0'' @ m;
          k = length m'
      in (if x < 0 then ''-'' else '''') @
         (if f = 0 then m else take (k - f) m' @ ''.'' @ drop (k - f) m'))"

text \<open>A number of hundredths, written with two decimals.\<close>

definition two_decimals :: "nat \<Rightarrow> string" where
  "two_decimals n = show_nat (n div 100) @ ''.'' @ [digit_char (n div 10 mod 10), digit_char (n mod 10)]"

subsection \<open>getCacheStats\<close>

record stats_report = cache_stats +
  hitRate :: string
  cacheSize :: nat

text \<open>
  \<^verbatim>\<open>((cacheStats.hits / cacheStats.totalRequests) * 100).toFixed(2) + '%'\<close>: a division and
  a multiplication of doubles, then the digits. \<^verbatim>\<open>memoryUsage: process.memoryUsage()\<close> reports
  on the process, not on the cache; it is left out.
\<close>

definition getCacheStats :: "server \<Rightarrow> stats_report" where
  "getCacheStats s =
     cache_stats.extend (cacheStats s)
       \<lparr>hitRate =
          (if totalRequests (cacheStats s) > 0
           then toFixed 2
                  (num_mul (num_div (rat_of_nat (hits (cacheStats s)))
                                    (rat_of_nat (totalRequests (cacheStats s)))) 100)
                @ ''%''
           else ''0%''),
        cacheSize = map_size (cache s)\<rparr>"

subsection \<open>The handlers\<close>

definition allowedOrigins :: "string list" where
  "allowedOrigins =
     [''http://localhost:3000'',
      ''https://wbjee-college-predictor.vercel.app'',
      ''https://wbjee-college-predictor.vercel.app/'']"

text \<open>
  \<^verbatim>\<open>referer && !allowedOrigins.some(allowed => referer.startsWith(allowed))\<close>: an absent
  header (\<open>None\<close>) and the empty string are falsy.
\<close>

definition refererBlocked :: "string option \<Rightarrow> bool" where
  "refererBlocked referer =
     (case referer of
        None \<Rightarrow> False
      | Some r \<Rightarrow> r \<noteq> [] \<and> \<not> list_ex (\<lambda>allowed. prefix allowed r) allowedOrigins)"

definition cacheKey :: string where
  "cacheKey = ''wbjee_full_data''"

definition count_hit :: "server \<Rightarrow> server" where
  "count_hit s =
     s\<lparr>cacheStats := (cacheStats s)\<lparr>hits := hits (cacheStats s) + 1,
                                      totalRequests := totalRequests (cacheStats s) + 1\<rparr>\<rparr>"

definition count_miss :: "server \<Rightarrow> server" where
  "count_miss s =
     s\<lparr>cacheStats := (cacheStats s)\<lparr>misses := misses (cacheStats s) + 1,
                                      totalRequests := totalRequests (cacheStats s) + 1\<rparr>\<rparr>"

text \<open>
  \<^verbatim>\<open>if (data)\<close> is JavaScript truthiness: \<^verbatim>\<open>null\<close> and the empty string are falsy, every
  other string is truthy.
\<close>

fun truthy :: "string option \<Rightarrow> bool" where
  "truthy None = False"
| "truthy (Some d) = (d \<noteq> [])"

datatype response = Forbidden | Served string | LoadFailed

text \<open>
  The else-branch of \<^verbatim>\<open>GET /api/data\<close> after the counters: \<^verbatim>\<open>fs.readFileSync\<close> either
  throws (\<open>None\<close>; the handler's \<^verbatim>\<open>catch\<close> answers 500, and the counters already updated
  stay so) or returns the file's text, which is cached at the time \<open>now'\<close> of the second
  \<^verbatim>\<open>Date.now()\<close> and served.
\<close>

definition load_and_store :: "string option \<Rightarrow> int \<Rightarrow> server \<Rightarrow> server \<times> response" where
  "load_and_store file now' s =
     (case file of
        None \<Rightarrow> (s, LoadFailed)
      | Some contents \<Rightarrow> (setCachedData cacheKey contents now' s, Served contents))"

text \<open>\<^verbatim>\<open>app.get('/api/data', ...)\<close>: 403, or the cached text, or the file's text, or 500.\<close>

definition api_data ::
  "string option \<Rightarrow> string option \<Rightarrow> int \<Rightarrow> int \<Rightarrow> server \<Rightarrow> server \<times> response"
where
  "api_data referer file now now' s =
     (if refererBlocked referer then (s, Forbidden)
      else
        (let d = getCachedData cacheKey now s in
         if truthy d
         then (count_hit s, Served (case d of Some x \<Rightarrow> x | None \<Rightarrow> []))
         else load_and_store file now' (count_miss s)))"

text \<open>
  Modelled from the spec: the counted \<open>get(key)\<close> for a key other than the handler's. The
  repository has no such function: \<^verbatim>\<open>getCachedData\<close> touches no counter, and hits and misses
  are counted only inline in \<^verbatim>\<open>GET /api/data\<close>, for \<^verbatim>\<open>'wbjee_full_data'\<close>. \<open>cache_lookup\<close>
  is that piece of the handler, the call of \<^verbatim>\<open>getCachedData\<close> and the \<^verbatim>\<open>if (data)\<close> with its
  two pairs of increments, with the key made a parameter: it gives the value
  \<^verbatim>\<open>getCachedData\<close> gave and the state with the counters updated. At \<open>cacheKey\<close> it is the
  source's own code: \<open>api_data\<close> is it, followed on a miss by the load (lemma
  \<open>api_data_lookup\<close>).
\<close>

definition cache_lookup :: "string \<Rightarrow> int \<Rightarrow> server \<Rightarrow> string option \<times> server" where
  "cache_lookup key now s =
     (let d = getCachedData key now s in
      if truthy d then (d, count_hit s) else (d, count_miss s))"

text \<open>\<^verbatim>\<open>app.post('/api/cache/clear', ...)\<close>: the new state and \<^verbatim>\<open>clearedEntries\<close>.\<close>

definition api_cache_clear :: "server \<Rightarrow> server \<times> nat" where
  "api_cache_clear s =
     (let previousSize = map_size (cache s) in
      (s\<lparr>cache := [], cacheStats := \<lparr>hits = 0, misses = 0, totalRequests = 0\<rparr>\<rparr>, previousSize))"

subsection \<open>Runs\<close>

text \<open>
  JavaScript runs each handler and each timer callback to completion before the next
  one starts, so a run of the server is a sequence of whole operations.
\<close>

datatype event =
    Get string int
  | Set string string int
  | Sweep int
  | Clear
  | Request "string option" "string option" int int

fun step :: "server \<Rightarrow> event \<Rightarrow> server" where
  "step s (Get key now) = snd (cache_lookup key now s)"
| "step s (Set key dat now) = setCachedData key dat now s"
| "step s (Sweep now) = clearExpiredCache now s"
| "step s Clear = fst (api_cache_clear s)"
| "step s (Request referer file now now') = fst (api_data referer file now now' s)"

fun run :: "server \<Rightarrow> event list \<Rightarrow> server" where
  "run s [] = s"
| "run s (e # es) = run (step s e) es"

text \<open>
  An event that leaves \<^verbatim>\<open>setCachedData\<close> uncalled: no \<open>Set\<close>, and no request that is let
  in and whose load succeeds.
\<close>

fun stores_nothing :: "event \<Rightarrow> bool" where
  "stores_nothing (Set key dat now) = False"
| "stores_nothing (Request referer file now now') = (file = None \<or> refererBlocked referer)"
| "stores_nothing e = True"

definition stats_consistent :: "server \<Rightarrow> bool" where
  "stats_consistent s = (hits (cacheStats s) + misses (cacheStats s) = totalRequests (cacheStats s))"

subsection \<open>Example states\<close>

text \<open>A cache holding the data file's text, stored at time 0, after one hit and one miss.\<close>

definition example_state :: server where
  "example_state =
     \<lparr>cache = [(''wbjee_full_data'', \<lparr>data = ''{}'', timestamp = 0\<rparr>)],
      cacheStats = \<lparr>hits = 1, misses = 1, totalRequests = 2\<rparr>\<rparr>"

text \<open>The same cache after 23 hits in 160 requests.\<close>

definition example_busy_state :: server where
  "example_busy_state =
     \<lparr>cache = [(''wbjee_full_data'', \<lparr>data = ''{}'', timestamp = 0\<rparr>)],
      cacheStats = \<lparr>hits = 23, misses = 137, totalRequests = 160\<rparr>\<rparr>"

section \<open>Properties\<close>

subsection \<open>The Map operations\<close>

lemma map_delete_filter: "map_delete m k = filter (\<lambda>p. fst p \<noteq> k) m"
  by (induction m) auto

lemma map_get_map_set: "map_get (map_set m k v) k' = (if k' = k then Some v else map_get m k')"
  by (induction m) auto

lemma map_keys_map_set:
  "map_keys (map_set m k v) = (if k \<in> set (map_keys m) then map_keys m else map_keys m @ [k])"
  by (induction m) (force simp: map_keys_def)+

lemma is_map_map_set: "is_map m \<Longrightarrow> is_map (map_set m k v)"
  by (simp add: is_map_def map_keys_map_set)

lemma is_map_filter: "is_map m \<Longrightarrow> is_map (filter P m)"
  by (simp add: is_map_def map_keys_def distinct_map_filter)

lemma map_get_map_of: "map_get m k = map_of m k"
  by (induction m) auto

lemma map_get_filter:
  "is_map m \<Longrightarrow>
   map_get (filter P m) k =
     (case map_get m k of None \<Rightarrow> None | Some v \<Rightarrow> if P (k, v) then Some v else None)"
proof (induction m)
  case Nil
  show ?case by simp
next
  case (Cons p m)
  obtain k' v' where p: "p = (k', v')" by (cases p)
  from Cons.prems have tl: "is_map m" and fresh: "k' \<notin> fst ` set m"
    by (simp_all add: is_map_def map_keys_def p)
  from fresh have none: "map_get m k' = None"
    by (simp add: map_get_map_of map_of_eq_None_iff)
  show ?case
    using Cons.IH [OF tl] none by (auto simp: p split: option.splits)
qed

lemma map_get_filter_key:
  "map_get (filter (\<lambda>p. Q (fst p)) m) k = (if Q k then map_get m k else None)"
  by (induction m) auto

subsection \<open>The sweep loop\<close>

text \<open>The loop deletes the keys of the expired entries it visits.\<close>

lemma sweep_loop_filter:
  "sweep_loop now xs m =
     filter (\<lambda>p. fst p \<notin> fst ` {e \<in> set xs. now - timestamp (snd e) > CACHE_TTL}) m"
proof (induction xs arbitrary: m)
  case Nil
  show ?case by simp
next
  case (Cons x xs)
  obtain key item where x: "x = (key, item)" by (cases x)
  let ?E = "\<lambda>ys. {e \<in> set ys. now - timestamp (snd e) > CACHE_TTL}"
  show ?case
  proof (cases "now - timestamp item > CACHE_TTL")
    case True
    then have E: "?E (x # xs) = insert (key, item) (?E xs)"
      by (auto simp: x)
    have "sweep_loop now (x # xs) m = sweep_loop now xs (map_delete m key)"
      using True by (simp add: x)
    also have "\<dots> = filter (\<lambda>p. fst p \<notin> fst ` ?E xs) (filter (\<lambda>p. fst p \<noteq> key) m)"
      by (simp add: Cons.IH map_delete_filter)
    also have "\<dots> = filter (\<lambda>p. fst p \<notin> fst ` ?E (x # xs)) m"
      unfolding E by (simp add: conj_commute)
    finally show ?thesis .
  next
    case False
    then have "?E (x # xs) = ?E xs"
      by (auto simp: x)
    with False show ?thesis by (simp add: x Cons.IH)
  qed
qed

lemma sweep_loop_self:
  assumes "is_map m"
  shows "sweep_loop now m m = filter (\<lambda>(key, item). \<not> now - timestamp item > CACHE_TTL) m"
proof -
  have "(fst p \<in> fst ` {e \<in> set m. now - timestamp (snd e) > CACHE_TTL})
        = (now - timestamp (snd p) > CACHE_TTL)" if "p \<in> set m" for p
  proof
    assume "fst p \<in> fst ` {e \<in> set m. now - timestamp (snd e) > CACHE_TTL}"
    then obtain e where e: "e \<in> set m" "now - timestamp (snd e) > CACHE_TTL" "fst e = fst p"
      by auto
    from assms have "distinct (map fst m)" by (simp add: is_map_def map_keys_def)
    from eq_key_imp_eq_value [OF this, of "fst p" "snd e" "snd p"] e that
    have "snd e = snd p" by (metis prod.collapse)
    with e show "now - timestamp (snd p) > CACHE_TTL" by simp
  next
    assume "now - timestamp (snd p) > CACHE_TTL"
    with that show "fst p \<in> fst ` {e \<in> set m. now - timestamp (snd e) > CACHE_TTL}"
      by auto
  qed
  then show ?thesis
    unfolding sweep_loop_filter by (intro filter_cong refl) (simp add: case_prod_beta)
qed

lemma map_get_sweep_loop:
  "map_get (sweep_loop now xs m) k = None \<or> map_get (sweep_loop now xs m) k = map_get m k"
  unfolding sweep_loop_filter
  using map_get_filter_key [of "\<lambda>a. a \<notin> fst ` {e \<in> set xs. now - timestamp (snd e) > CACHE_TTL}" m k]
  by simp

subsection \<open>What each operation leaves alone\<close>

lemma cache_count_hit [simp]: "cache (count_hit s) = cache s"
  by (simp add: count_hit_def)

lemma cache_count_miss [simp]: "cache (count_miss s) = cache s"
  by (simp add: count_miss_def)

lemma cache_cache_lookup: "cache (snd (cache_lookup key now s)) = cache s"
  by (simp add: cache_lookup_def Let_def)

lemma getCachedData_cong: "cache s = cache s' \<Longrightarrow> getCachedData key now s = getCachedData key now s'"
  by (simp add: getCachedData_def)

lemma api_data_lookup:
  "api_data referer file now now' s =
     (if refererBlocked referer then (s, Forbidden)
      else case cache_lookup cacheKey now s of
             (d, s1) \<Rightarrow> if truthy d then (s1, Served (the d)) else load_and_store file now' s1)"
  by (cases "getCachedData cacheKey now s") (simp_all add: api_data_def cache_lookup_def Let_def)

lemma cacheStats_setCachedData [simp]: "cacheStats (setCachedData key dat now s) = cacheStats s"
  by (simp add: setCachedData_def)

lemma cacheStats_clearExpiredCache [simp]: "cacheStats (clearExpiredCache now s) = cacheStats s"
  by (simp add: clearExpiredCache_def)

subsection \<open>The counters add up, step by step\<close>

lemma stats_consistent_count_hit: "stats_consistent s \<Longrightarrow> stats_consistent (count_hit s)"
  by (simp add: stats_consistent_def count_hit_def)

lemma stats_consistent_count_miss: "stats_consistent s \<Longrightarrow> stats_consistent (count_miss s)"
  by (simp add: stats_consistent_def count_miss_def)

lemma stats_consistent_setCachedData [simp]:
  "stats_consistent (setCachedData key dat now s) = stats_consistent s"
  by (simp add: stats_consistent_def)

lemma stats_consistent_clearExpiredCache [simp]:
  "stats_consistent (clearExpiredCache now s) = stats_consistent s"
  by (simp add: stats_consistent_def)

lemma stats_consistent_load_and_store:
  "stats_consistent s \<Longrightarrow> stats_consistent (fst (load_and_store file now' s))"
  by (cases "file") (simp_all add: load_and_store_def)

lemma stats_consistent_cleared: "stats_consistent (fst (api_cache_clear s))"
  by (simp add: api_cache_clear_def stats_consistent_def)

lemma stats_consistent_step:
  assumes "stats_consistent s"
  shows "stats_consistent (step s e)"
proof (cases e)
  case (Get key now)
  with assms show ?thesis
    by (simp add: cache_lookup_def Let_def stats_consistent_count_hit stats_consistent_count_miss)
next
  case (Set key dat now)
  with assms show ?thesis by simp
next
  case (Sweep now)
  with assms show ?thesis by simp
next
  case Clear
  then show ?thesis by (simp add: stats_consistent_cleared)
next
  case (Request referer loaded now now')
  with assms show ?thesis
    by (simp add: api_data_def Let_def stats_consistent_count_hit stats_consistent_count_miss
        stats_consistent_load_and_store)
qed

lemma stats_consistent_run: "stats_consistent s \<Longrightarrow> stats_consistent (run s es)"
  by (induction es arbitrary: s) (simp_all add: stats_consistent_step)

lemma run_append: "run s (es @ es') = run (run s es) es'"
  by (induction es arbitrary: s) simp_all

subsection \<open>Rounding to a double\<close>

text \<open>
  The binade found from the bit lengths is the right one, so \<open>to_double\<close> is off by at
  most half a unit in the last of 53 bits.
\<close>

lemma bit_length_bounds:
  "0 < n \<Longrightarrow> n < 2 ^ bit_length n \<and> 2 ^ bit_length n \<le> 2 * n"
proof (induction n rule: bit_length.induct)
  case (1 n)
  show ?case
  proof (cases "n div 2 = 0")
    case True
    with "1.prems" have "n = 1" by (simp add: div_eq_0_iff) 
    then show ?thesis
      by (simp add: bit_length.simps [of "Suc 0"] bit_length.simps [of 0])
  next
    case False
    then have pos: "0 < n div 2" by simp
    from "1.IH" [OF _ pos] "1.prems"
    have ih: "n div 2 < 2 ^ bit_length (n div 2)" "2 ^ bit_length (n div 2) \<le> 2 * (n div 2)"
      by simp_all
    have bl: "bit_length n = Suc (bit_length (n div 2))"
      using "1.prems" by (simp add: bit_length.simps [of n])
    from ih show ?thesis
      unfolding bl by (simp; linarith)
  qed
qed

lemma round_half_even_error: "\<bar>of_int (round_half_even y) - y\<bar> \<le> 1 / 2"
proof -
  have "of_int \<lfloor>y\<rfloor> \<le> y" "y < of_int \<lfloor>y\<rfloor> + 1"
    by linarith+
  then show ?thesis
    by (auto simp: round_half_even_def Let_def abs_le_iff)
qed

lemma round_half_even_nonneg: "0 \<le> y \<Longrightarrow> 0 \<le> round_half_even y"
  by (auto simp: round_half_even_def Let_def)

lemma round_half_even_eqI: "\<bar>y - of_int m\<bar> < 1 / 2 \<Longrightarrow> round_half_even y = m"
proof -
  assume a: "\<bar>y - of_int m\<bar> < 1 / 2"
  show ?thesis
  proof (cases "of_int m \<le> y")
    case True
    with a have "\<lfloor>y\<rfloor> = m" by (intro floor_unique) (auto simp: abs_less_iff)
    with a True show ?thesis by (auto simp: round_half_even_def Let_def abs_less_iff)
  next
    case False
    with a have "\<lfloor>y\<rfloor> = m - 1" by (intro floor_unique) (auto simp: abs_less_iff)
    with a False show ?thesis by (auto simp: round_half_even_def Let_def abs_less_iff)
  qed
qed


lemma binade_bounds:
  assumes "0 < x"
  shows "2 powi binade x \<le> x \<and> x < 2 powi (binade x + 1)"
proof -
  obtain p q where pq: "quotient_of x = (p, q)" by (cases "quotient_of x")
  from quotient_of_denom_pos [OF pq] have q: "0 < q" .
  from quotient_of_div [OF pq] have x: "x = of_int p / of_int q" .
  from assms q have p: "0 < p"
    by (simp add: x zero_less_divide_iff)
  define lp where "lp = bit_length (nat p)"
  define lq where "lq = bit_length (nat q)"
  define k where "k = int lp - int lq"
  from bit_length_bounds [of "nat p"] p
  have "nat p < 2 ^ lp" "2 ^ lp \<le> 2 * nat p" by (simp_all add: lp_def)
  then have "int (nat p) < int (2 ^ lp)" "int (2 ^ lp) \<le> int (2 * nat p)"
    by (simp_all only: of_nat_less_iff of_nat_le_iff)
  with p have pb: "p < 2 ^ lp" "2 ^ lp \<le> 2 * p" by simp_all
  from bit_length_bounds [of "nat q"] q
  have "nat q < 2 ^ lq" "2 ^ lq \<le> 2 * nat q" by (simp_all add: lq_def)
  then have "int (nat q) < int (2 ^ lq)" "int (2 ^ lq) \<le> int (2 * nat q)"
    by (simp_all only: of_nat_less_iff of_nat_le_iff)
  with q have qb: "q < 2 ^ lq" "2 ^ lq \<le> 2 * q" by simp_all
  have pr: "rat_of_int p < 2 ^ lp" "(2::rat) ^ lp \<le> 2 * of_int p"
    using pb by (metis of_int_less_iff of_int_numeral of_int_power, metis of_int_le_iff of_int_mult of_int_numeral of_int_power)
  have qr: "rat_of_int q < 2 ^ lq" "(2::rat) ^ lq \<le> 2 * of_int q"
    using qb by (metis of_int_less_iff of_int_numeral of_int_power, metis of_int_le_iff of_int_mult of_int_numeral of_int_power)
  have qpos: "0 < rat_of_int q" using q by simp
  have ppos: "0 < rat_of_int p" using p by simp
  have pk: "(2::rat) powi k = 2 ^ lp / 2 ^ lq"
    by (simp add: k_def power_int_diff)
  have upper: "x < 2 powi (k + 1)"
  proof -
    have "x * 2 ^ lq \<le> x * (2 * of_int q)"
      using qr(2) assms by (intro mult_left_mono) simp_all
    also have "\<dots> = 2 * of_int p"
      using qpos by (simp add: x)
    also have "\<dots> < 2 * 2 ^ lp"
      using pr(1) by simp
    finally have "x < 2 * 2 ^ lp / 2 ^ lq"
      by (simp add: pos_less_divide_eq)
    then show ?thesis
      by (simp add: power_int_add pk mult.commute)
  qed
  have lower: "2 powi (k - 1) < x"
  proof -
    have "(2::rat) ^ lp \<le> 2 * of_int p" by (rule pr(2))
    also have "\<dots> = 2 * (x * of_int q)"
      using qpos by (simp add: x)
    also have "\<dots> < 2 * (x * 2 ^ lq)"
      using qr(1) assms by simp
    finally have "(2::rat) ^ lp / 2 ^ lq < 2 * x"
      by (simp add: pos_divide_less_eq mult.assoc)
    then show ?thesis
      by (simp add: power_int_diff pk)
  qed
  have b: "binade x = (if 2 powi k \<le> x then k else k - 1)"
    by (simp add: binade_def pq k_def lp_def lq_def)
  show ?thesis
  proof (cases "2 powi k \<le> x")
    case True
    with upper show ?thesis by (simp add: b)
  next
    case False
    with lower show ?thesis by (simp add: b)
  qed
qed

lemma binade_unique:
  assumes "0 < x" and "2 powi b \<le> x" and "x < 2 powi (b + 1)"
  shows "binade x = b"
proof -
  from binade_bounds [OF assms(1)]
  have lo: "2 powi binade x \<le> x" and hi: "x < 2 powi (binade x + 1)" by simp_all
  have "(2::rat) powi b < 2 powi (binade x + 1)"
    using assms(2) hi by simp
  then have 1: "b < binade x + 1"
    using power_int_increasing [of "binade x + 1" b "2::rat"] by (cases "b < binade x + 1") simp_all
  have "(2::rat) powi binade x < 2 powi (b + 1)"
    using lo assms(3) by simp
  then have 2: "binade x < b + 1"
    using power_int_increasing [of "b + 1" "binade x" "2::rat"] by (cases "binade x < b + 1") simp_all
  from 1 2 show ?thesis by simp
qed


lemma to_double_pos:
  assumes "0 < x"
  shows "to_double x = of_int (round_half_even (x / 2 powi (binade x - 52))) * 2 powi (binade x - 52)"
  using assms by (simp add: to_double_def Let_def)

lemma to_double_eqI:
  assumes "0 < x" and "2 powi b \<le> x" and "x < 2 powi (b + 1)"
    and "\<bar>x / 2 powi (b - 52) - of_int m\<bar> < 1 / 2"
  shows "to_double x = of_int m * 2 powi (b - 52)"
  using assms(1) round_half_even_eqI [OF assms(4)]
  by (simp add: to_double_pos binade_unique [OF assms(1,2,3)])

lemma round_half_even_tie:
  "y = of_int f + 1 / 2 \<Longrightarrow> round_half_even y = (if even f then f else f + 1)"
proof -
  assume y: "y = of_int f + 1 / 2"
  then have "\<lfloor>y\<rfloor> = f" by (intro floor_unique) simp_all
  with y show ?thesis by (simp add: round_half_even_def Let_def)
qed

lemma to_double_tieI:
  assumes "0 < x" and "2 powi b \<le> x" and "x < 2 powi (b + 1)"
    and "x / 2 powi (b - 52) = of_int f + 1 / 2"
  shows "to_double x = of_int (if even f then f else f + 1) * 2 powi (b - 52)"
  using assms(1) round_half_even_tie [OF assms(4)]
  by (simp add: to_double_pos binade_unique [OF assms(1,2,3)])

lemma to_double_nonneg: "0 \<le> x \<Longrightarrow> 0 \<le> to_double x"
  by (cases "x = 0") (simp_all add: to_double_def Let_def round_half_even_nonneg)

lemma to_double_error_pos:
  assumes "0 < x"
  shows "\<bar>to_double x - x\<bar> \<le> x / 2 ^ 53"
proof -
  define e where "e = binade x - 52"
  define y where "y = x / 2 powi e"
  define m where "m = round_half_even y"
  have pe: "0 < (2::rat) powi e" by simp
  have xy: "x = y * 2 powi e"
    by (simp add: y_def)
  have td: "to_double x = of_int m * 2 powi e"
    using assms by (simp add: to_double_pos m_def y_def e_def)
  have "\<bar>to_double x - x\<bar> = \<bar>of_int m - y\<bar> * 2 powi e"
    unfolding td using pe by (subst xy) (simp add: abs_mult flip: left_diff_distrib)
  also have "\<dots> \<le> 1 / 2 * 2 powi e"
    using round_half_even_error [of y] pe unfolding m_def
    by (intro mult_right_mono) simp_all
  also have "\<dots> = 2 powi binade x / 2 ^ 53"
    by (simp add: e_def power_int_diff)
  also have "\<dots> \<le> x / 2 ^ 53"
    using binade_bounds [OF assms] by (simp add: divide_right_mono)
  finally show ?thesis .
qed

lemma to_double_error: "0 \<le> x \<Longrightarrow> \<bar>to_double x - x\<bar> \<le> x / 2 ^ 53"
proof (cases "x = 0")
  case True
  then show ?thesis by (simp add: to_double_def)
next
  case False
  assume "0 \<le> x"
  with False have "0 < x" by simp
  then show ?thesis by (rule to_double_error_pos)
qed

subsection \<open>The digits of toFixed(2)\<close>

lemma show_nat_small: "n < 10 \<Longrightarrow> show_nat n = [digit_char n]"
  by (simp add: show_nat.simps [of n])

lemma show_nat_step: "10 \<le> n \<Longrightarrow> show_nat n = show_nat (n div 10) @ [digit_char (n mod 10)]"
  by (simp add: show_nat.simps [of n])

lemma length_show_nat_pos: "0 < length (show_nat n)"
  by (cases "n < 10") (simp_all add: show_nat_small show_nat_step)

lemma show_nat_hundreds:
  "show_nat n = (if n < 100 then (if n < 10 then [digit_char n] else [digit_char (n div 10), digit_char (n mod 10)])
                 else show_nat (n div 100) @ [digit_char (n div 10 mod 10), digit_char (n mod 10)])"
proof -
  have "show_nat (n div 10) = show_nat (n div 100) @ [digit_char (n div 10 mod 10)]" if "100 \<le> n"
  proof -
    from that have "10 \<le> n div 10" by simp
    have "n div 10 div 10 = n div 100"
      using div_mult2_eq [of n 10 10] by simp
    with show_nat_step [OF \<open>10 \<le> n div 10\<close>] show ?thesis
      by simp
  qed
  moreover have "show_nat (n div 10) = [digit_char (n div 10)]" if "n < 100"
    using that by (simp add: show_nat_small)
  ultimately show ?thesis
    by (cases "n < 10") (auto simp: show_nat_small show_nat_step not_less)
qed

lemma toFixed_two:
  assumes "0 \<le> x"
  shows "toFixed 2 x = two_decimals (nat \<lfloor>x * 100 + 1 / 2\<rfloor>)"
proof -
  define n where "n = nat \<lfloor>x * 100 + 1 / 2\<rfloor>"
  have n: "nat \<lfloor>\<bar>x\<bar> * 10 ^ 2 + 1 / 2\<rfloor> = n"
    using assms by (simp add: n_def)
  have nonneg: "\<not> x < 0" using assms by simp
  have zero: "digit_char 0 = CHR ''0''" by (simp add: digit_char_def)
  show ?thesis
  proof (cases "n < 10")
    case True
    then have "show_nat n = [digit_char n]" by (rule show_nat_small)
    with True nonneg show ?thesis
      unfolding toFixed_def n n_def [symmetric] two_decimals_def
      by (simp add: Let_def show_nat_small zero)
  next
    case False
    show ?thesis
    proof (cases "n < 100")
      case True
      with False have m: "show_nat n = [digit_char (n div 10), digit_char (n mod 10)]"
        by (subst show_nat_hundreds) simp
      from True have d: "n div 100 = 0" "n div 10 mod 10 = n div 10" by simp_all
      from nonneg show ?thesis
        unfolding toFixed_def n n_def [symmetric] two_decimals_def
        by (simp add: Let_def m d show_nat_small zero)
    next
      case False
      then have m: "show_nat n = show_nat (n div 100) @ [digit_char (n div 10 mod 10), digit_char (n mod 10)]"
        by (subst show_nat_hundreds) simp
      from nonneg show ?thesis
        unfolding toFixed_def n n_def [symmetric] two_decimals_def
        using length_show_nat_pos [of "n div 100"]
        by (simp add: Let_def m Suc_le_eq)
    qed
  qed
qed

subsection \<open>The hit rate as a number\<close>

lemma hit_rate_double:
  assumes "0 < t"
  shows "0 \<le> num_mul (num_div (rat_of_nat h) (rat_of_nat t)) 100
       \<and> \<bar>num_mul (num_div (rat_of_nat h) (rat_of_nat t)) 100 - 100 * rat_of_nat h / rat_of_nat t\<bar>
           \<le> 100 * rat_of_nat h / rat_of_nat t / 2 ^ 51"
proof -
  define q where "q = rat_of_nat h / rat_of_nat t"
  define r where "r = to_double q"
  define d where "d = to_double (r * 100)"
  have q0: "0 \<le> q" by (simp add: q_def)
  have r0: "0 \<le> r" unfolding r_def using q0 by (rule to_double_nonneg)
  have d0: "0 \<le> d" unfolding d_def using r0 by (intro to_double_nonneg) simp
  have er: "\<bar>r - q\<bar> \<le> q / 2 ^ 53"
    unfolding r_def using q0 by (rule to_double_error)
  have ed: "\<bar>d - r * 100\<bar> \<le> r * 100 / 2 ^ 53"
    unfolding d_def using r0 by (intro to_double_error) simp
  have "r - q \<le> \<bar>r - q\<bar>" by (rule abs_ge_self)
  with er have r_le: "r \<le> q + q / 2 ^ 53" by linarith
  have "q / 2 ^ 53 \<le> q" using q0 by (simp add: field_simps)
  with r_le have r_le2: "r \<le> 2 * q" by linarith
  have "\<bar>d - 100 * q\<bar> \<le> \<bar>d - r * 100\<bar> + 100 * \<bar>r - q\<bar>"
    unfolding abs_if by (auto; linarith)
  also have "\<dots> \<le> r * 100 / 2 ^ 53 + 100 * (q / 2 ^ 53)"
    using ed er by (intro add_mono mult_left_mono) simp_all
  also have "\<dots> \<le> 100 * q / 2 ^ 51"
  proof -
    have "r * 100 / 9007199254740992 + 100 * (q / 9007199254740992) \<le> 100 * q / 2251799813685248"
      using r_le2 q0 by linarith
    then show ?thesis by simp
  qed
  finally have "\<bar>d - 100 * q\<bar> \<le> 100 * q / 2 ^ 51" .
  with d0 show ?thesis
    by (simp add: d_def r_def q_def num_mul_def num_div_def)
qed

lemma nearest_hundredths:
  assumes "0 \<le> d"
  shows "\<bar>rat_of_nat (nat \<lfloor>d * 100 + 1 / 2\<rfloor>) / 100 - d\<bar> \<le> 1 / 200"
proof -
  have nn: "0 \<le> \<lfloor>d * 100 + 1 / 2\<rfloor>" using assms by simp
  have "of_int \<lfloor>d * 100 + 1 / 2\<rfloor> \<le> d * 100 + 1 / 2" "d * 100 + 1 / 2 < of_int \<lfloor>d * 100 + 1 / 2\<rfloor> + 1"
    by linarith+
  then have "rat_of_int \<lfloor>d * 100 + 1 / 2\<rfloor> / 100 - d \<le> 1 / 200"
    "- (rat_of_int \<lfloor>d * 100 + 1 / 2\<rfloor> / 100 - d) \<le> 1 / 200"
    by linarith+
  then have "\<bar>rat_of_int \<lfloor>d * 100 + 1 / 2\<rfloor> / 100 - d\<bar> \<le> 1 / 200"
    by (rule abs_leI)
  moreover have "rat_of_nat (nat \<lfloor>d * 100 + 1 / 2\<rfloor>) = rat_of_int \<lfloor>d * 100 + 1 / 2\<rfloor>"
    using nn by (metis of_nat_nat)
  ultimately show ?thesis
    by (simp only:)
qed

lemma hit_rate_23_160:
  "toFixed 2 (num_mul (num_div 23 160) 100) = ''14.37''"
proof -
  have r: "num_div 23 160 = of_int 5179139571476070 * 2 powi (- 3 - 52)"
    unfolding num_div_def by (rule to_double_eqI) simp_all
  have d: "num_mul (num_div 23 160) 100 = of_int 8092405580431359 * 2 powi (3 - 52)"
    unfolding num_mul_def r by (rule to_double_eqI) simp_all
  have d0: "(0::rat) \<le> of_int 8092405580431359 * 2 powi (3 - 52)"
    by simp
  have f: "\<lfloor>rat_of_int 8092405580431359 * 2 powi (3 - 52) * 100 + 1 / 2\<rfloor> = 1437"
    by (rule floor_unique) simp_all
  show ?thesis
    unfolding d toFixed_two [OF d0] f
    by (simp add: two_decimals_def show_nat.simps digit_char_def)
qed

lemma hit_rate_1_2:
  "toFixed 2 (num_mul (num_div 1 2) 100) = ''50.00''"
proof -
  have r: "num_div 1 2 = of_int 4503599627370496 * 2 powi (- 1 - 52)"
    unfolding num_div_def by (rule to_double_eqI) simp_all
  have d: "num_mul (num_div 1 2) 100 = of_int 7036874417766400 * 2 powi (5 - 52)"
    unfolding num_mul_def r by (rule to_double_eqI) simp_all
  have d0: "(0::rat) \<le> of_int 7036874417766400 * 2 powi (5 - 52)"
    by simp
  have f: "\<lfloor>rat_of_int 7036874417766400 * 2 powi (5 - 52) * 100 + 1 / 2\<rfloor> = 5000"
    by (rule floor_unique) simp_all
  show ?thesis
    unfolding d toFixed_two [OF d0] f
    by (simp add: two_decimals_def show_nat.simps digit_char_def)
qed

text \<open>At 2 hits in 27 requests the product is a tie, and goes to the even significand.\<close>

lemma product_2_27:
  "num_mul (num_div 2 27) 100 = of_int 8339999309945362 * 2 powi (2 - 52)"
proof -
  have r: "num_div 2 27 = of_int 5337599558365032 * 2 powi (- 4 - 52)"
    unfolding num_div_def by (rule to_double_eqI) simp_all
  have "to_double (of_int 5337599558365032 * 2 powi (- 4 - 52) * 100)
        = of_int (if even (8339999309945362 :: int) then 8339999309945362 else 8339999309945362 + 1)
          * 2 powi (2 - 52)"
    by (rule to_double_tieI) simp_all
  then show ?thesis
    unfolding num_mul_def r by simp
qed

lemma hit_rate_2_27:
  "toFixed 2 (num_mul (num_div 2 27) 100) = ''7.41''"
proof -
  have d0: "(0::rat) \<le> of_int 8339999309945362 * 2 powi (2 - 52)"
    by simp
  have f: "\<lfloor>rat_of_int 8339999309945362 * 2 powi (2 - 52) * 100 + 1 / 2\<rfloor> = 741"
    by (rule floor_unique) simp_all
  show ?thesis
    unfolding product_2_27 toFixed_two [OF d0] f
    by (simp add: two_decimals_def show_nat.simps digit_char_def)
qed

subsection \<open>Stores and lookups\<close>

lemma getCachedData_setCachedData:
  "getCachedData key now' (setCachedData key dat now s)
     = (if now' - now < CACHE_TTL then Some dat else None)"
  by (simp add: getCachedData_def setCachedData_def map_get_map_set)

lemma getCachedData_setCachedData_other:
  "key' \<noteq> key \<Longrightarrow> getCachedData key' now' (setCachedData key dat now s) = getCachedData key' now' s"
  by (simp add: getCachedData_def setCachedData_def map_get_map_set)

subsection \<open>Operations that store nothing\<close>

lemma cache_load_and_store_None [simp]: "load_and_store None now' s = (s, LoadFailed)"
  by (simp add: load_and_store_def)

lemma cache_api_data_failed_load: "cache (fst (api_data referer None now now' s)) = cache s"
  by (simp add: api_data_def Let_def)

lemma cache_api_data_blocked:
  "refererBlocked referer \<Longrightarrow> cache (fst (api_data referer loaded now now' s)) = cache s"
  by (simp add: api_data_def)

lemma map_get_step_stores_nothing:
  assumes "stores_nothing e"
  shows "map_get (cache (step s e)) key = None \<or> map_get (cache (step s e)) key = map_get (cache s) key"
proof (cases e)
  case (Get k now)
  then show ?thesis by (simp add: cache_cache_lookup)
next
  case (Set k dat now)
  with assms show ?thesis by simp
next
  case (Sweep now)
  then show ?thesis
    using map_get_sweep_loop [of now "cache s" "cache s" key] by (simp add: clearExpiredCache_def)
next
  case Clear
  then show ?thesis by (simp add: api_cache_clear_def)
next
  case (Request referer loaded now now')
  with assms have "cache (step s e) = cache s"
    by (auto simp: cache_api_data_failed_load cache_api_data_blocked)
  then show ?thesis by simp
qed

lemma map_get_run_stores_nothing:
  "list_all stores_nothing es \<Longrightarrow>
   map_get (cache (run s es)) key = None \<or> map_get (cache (run s es)) key = map_get (cache s) key"
proof (induction es arbitrary: s)
  case Nil
  show ?case by simp
next
  case (Cons e es)
  then have e: "stores_nothing e" and es: "list_all stores_nothing es"
    by simp_all
  from Cons.IH [OF es, of "step s e"] map_get_step_stores_nothing [OF e, of s key]
  show ?case by auto
qed

lemma miss_stays_miss:
  assumes "\<not> truthy (getCachedData key now s)"
    and "now \<le> now'"
    and "map_get (cache s') key = None \<or> map_get (cache s') key = map_get (cache s) key"
  shows "\<not> truthy (getCachedData key now' s')"
proof (cases "map_get (cache s') key")
  case None
  then show ?thesis by (simp add: getCachedData_def)
next
  case (Some item)
  with assms(3) have same: "map_get (cache s) key = Some item" by simp
  show ?thesis
  proof (cases "now' - timestamp item < CACHE_TTL")
    case True
    with assms(2) have "now - timestamp item < CACHE_TTL" by simp
    with assms(1) same have "data item = []"
      by (simp add: getCachedData_def)
    with Some True show ?thesis
      by (simp add: getCachedData_def)
  next
    case False
    with Some show ?thesis by (simp add: getCachedData_def)
  qed
qed

subsection \<open>Every reachable table is a Map\<close>

lemma is_map_step: "is_map (cache s) \<Longrightarrow> is_map (cache (step s e))"
proof (cases e)
  case (Get key now)
  assume "is_map (cache s)"
  with Get show ?thesis by (simp add: cache_cache_lookup)
next
  case (Set key dat now)
  assume "is_map (cache s)"
  with Set show ?thesis by (simp add: setCachedData_def is_map_map_set)
next
  case (Sweep now)
  assume "is_map (cache s)"
  with Sweep show ?thesis
    by (simp add: clearExpiredCache_def sweep_loop_filter is_map_filter)
next
  case Clear
  then show ?thesis by (simp add: api_cache_clear_def is_map_def map_keys_def)
next
  case (Request referer loaded now now')
  assume "is_map (cache s)"
  with Request show ?thesis
    by (cases loaded)
      (simp_all add: api_data_def Let_def load_and_store_def setCachedData_def is_map_map_set)
qed

lemma is_map_run: "is_map (cache s) \<Longrightarrow> is_map (cache (run s es))"
  by (induction es arbitrary: s) (simp_all add: is_map_step)

lemma is_map_reachable: "is_map (cache (run initial_state es))"
  by (rule is_map_run) (simp add: initial_state_def is_map_def map_keys_def)

subsection \<open>The lookup, case by case\<close>

lemma cache_lookup_cases:
  "cache_lookup key now s =
     (case map_get (cache s) key of
        None \<Rightarrow> (None, count_miss s)
      | Some item \<Rightarrow>
          if now - timestamp item < CACHE_TTL
          then (if data item \<noteq> [] then (Some (data item), count_hit s) else (Some [], count_miss s))
          else (None, count_miss s))"
  by (simp add: cache_lookup_def getCachedData_def split: option.splits)

lemma setCachedData_entry:
  "map_get (cache (setCachedData key dat now s)) key' =
     (if key' = key then Some \<lparr>data = dat, timestamp = now\<rparr> else map_get (cache s) key')"
  by (simp add: setCachedData_def map_get_map_set)

subsection \<open>The sweep\<close>

text \<open>
  Claim C4. At any state whose table is a Map and at any time \<open>now\<close>,
  \<open>clearExpiredCache\<close> removes exactly the entries whose age \<open>now - timestamp\<close> is greater
  than \<open>CACHE_TTL\<close>: what is left is the table filtered, so every other entry stays, in
  place, with its data and its timestamp; looked up by key, an entry is gone when its
  age exceeds the TTL and is the same item otherwise. The counters are not touched.
\<close>

theorem sweep_removes_exactly_expired:
  assumes "is_map (cache s)"
  shows "cache (clearExpiredCache now s)
           = filter (\<lambda>(key, item). \<not> now - timestamp item > CACHE_TTL) (cache s)
       \<and> map_get (cache (clearExpiredCache now s)) key
           = (case map_get (cache s) key of
                None \<Rightarrow> None
              | Some item \<Rightarrow> if now - timestamp item > CACHE_TTL then None else Some item)
       \<and> cacheStats (clearExpiredCache now s) = cacheStats s"
  using assms
  by (simp add: clearExpiredCache_def sweep_loop_self map_get_filter split: option.splits)

theorem sweep_removes_exactly_expired_witness:
  "is_map [(''old'', \<lparr>data = ''x'', timestamp = 0\<rparr>), (''new'', \<lparr>data = ''y'', timestamp = 1000\<rparr>)]
   \<and> cache (clearExpiredCache 1800001
        \<lparr>cache = [(''old'', \<lparr>data = ''x'', timestamp = 0\<rparr>), (''new'', \<lparr>data = ''y'', timestamp = 1000\<rparr>)],
         cacheStats = \<lparr>hits = 1, misses = 2, totalRequests = 3\<rparr>\<rparr>)
       = [(''new'', \<lparr>data = ''y'', timestamp = 1000\<rparr>)]
   \<and> cacheStats (clearExpiredCache 1800001
        \<lparr>cache = [(''old'', \<lparr>data = ''x'', timestamp = 0\<rparr>), (''new'', \<lparr>data = ''y'', timestamp = 1000\<rparr>)],
         cacheStats = \<lparr>hits = 1, misses = 2, totalRequests = 3\<rparr>\<rparr>)
       = \<lparr>hits = 1, misses = 2, totalRequests = 3\<rparr>"
  using sweep_removes_exactly_expired
    [of "\<lparr>cache = [(''old'', \<lparr>data = ''x'', timestamp = 0\<rparr>), (''new'', \<lparr>data = ''y'', timestamp = 1000\<rparr>)],
          cacheStats = \<lparr>hits = 1, misses = 2, totalRequests = 3\<rparr>\<rparr>" 1800001 "''old''"]
  by (simp add: is_map_def map_keys_def CACHE_TTL_def)

text \<open>
  Claim C9. An entry whose age is exactly \<open>CACHE_TTL\<close> is expired for a read
  (\<open>getCachedData\<close> asks for an age below the TTL, so it gives \<open>null\<close> and the lookup counts
  a miss) and is kept by a sweep at that same instant (\<open>clearExpiredCache\<close> asks for an age
  above the TTL). After the sweep the entry is still in the table, and every lookup
  at that instant or later treats it as absent.
\<close>

theorem boundary_age_missed_but_not_swept:
  assumes "is_map (cache s)"
    and "map_get (cache s) key = Some item"
    and "now - timestamp item = CACHE_TTL"
    and "now \<le> now'"
  shows "getCachedData key now s = None
       \<and> cache_lookup key now s = (None, count_miss s)
       \<and> map_get (cache (clearExpiredCache now s)) key = Some item
       \<and> cache_lookup key now' (clearExpiredCache now s) = (None, count_miss (clearExpiredCache now s))"
proof -
  have get: "getCachedData key now s = None"
    using assms(2,3) by (simp add: getCachedData_def)
  have kept: "map_get (cache (clearExpiredCache now s)) key = Some item"
    using assms(1,2,3) by (simp add: clearExpiredCache_def sweep_loop_self map_get_filter)
  have "\<not> now' - timestamp item < CACHE_TTL"
    using assms(3,4) by simp
  with kept have later: "getCachedData key now' (clearExpiredCache now s) = None"
    by (simp add: getCachedData_def)
  from get kept later show ?thesis
    by (simp add: cache_lookup_def)
qed

theorem boundary_age_missed_but_not_swept_witness:
  "is_map [(''k'', \<lparr>data = ''v'', timestamp = 5\<rparr>)]
   \<and> getCachedData ''k'' 1800005 \<lparr>cache = [(''k'', \<lparr>data = ''v'', timestamp = 5\<rparr>)],
         cacheStats = \<lparr>hits = 0, misses = 0, totalRequests = 0\<rparr>\<rparr> = None
   \<and> map_get (cache (clearExpiredCache 1800005 \<lparr>cache = [(''k'', \<lparr>data = ''v'', timestamp = 5\<rparr>)],
         cacheStats = \<lparr>hits = 0, misses = 0, totalRequests = 0\<rparr>\<rparr>)) ''k''
       = Some \<lparr>data = ''v'', timestamp = 5\<rparr>
   \<and> fst (cache_lookup ''k'' 1800006 (clearExpiredCache 1800005
         \<lparr>cache = [(''k'', \<lparr>data = ''v'', timestamp = 5\<rparr>)],
          cacheStats = \<lparr>hits = 0, misses = 0, totalRequests = 0\<rparr>\<rparr>)) = None"
  using boundary_age_missed_but_not_swept
    [of "\<lparr>cache = [(''k'', \<lparr>data = ''v'', timestamp = 5\<rparr>)],
          cacheStats = \<lparr>hits = 0, misses = 0, totalRequests = 0\<rparr>\<rparr>"
        "''k''" "\<lparr>data = ''v'', timestamp = 5\<rparr>" 1800005 1800006]
  by (simp add: is_map_def map_keys_def CACHE_TTL_def)

subsection \<open>Lookups\<close>

text \<open>
  Claim C10. A lookup never changes the table: the state after \<open>cache_lookup\<close> has the
  table it had, so the size that \<open>getCacheStats\<close> reports is the same, and an expired entry
  that was looked up (and reported absent) is still there.
\<close>

theorem lookup_leaves_table:
  "cache (snd (cache_lookup key now s)) = cache s
   \<and> cacheSize (getCacheStats (snd (cache_lookup key now s))) = cacheSize (getCacheStats s)
   \<and> (map_get (cache s) key = Some item \<and> CACHE_TTL \<le> now - timestamp item \<longrightarrow>
        fst (cache_lookup key now s) = None
        \<and> map_get (cache (snd (cache_lookup key now s))) key = Some item)"
proof -
  have frame: "cache (snd (cache_lookup key now s)) = cache s"
    by (rule cache_cache_lookup)
  have "getCachedData key now s = None"
    if "map_get (cache s) key = Some item" and "CACHE_TTL \<le> now - timestamp item"
    using that by (simp add: getCachedData_def)
  then show ?thesis
    by (simp add: frame getCacheStats_def cache_stats.defs) (simp add: cache_lookup_def)
qed

theorem lookup_leaves_table_witness:
  "map_get [(''k'', \<lparr>data = ''v'', timestamp = 0\<rparr>)] ''k'' = Some \<lparr>data = ''v'', timestamp = 0\<rparr>
   \<and> CACHE_TTL \<le> 1800000 - 0
   \<and> cache_lookup ''k'' 1800000 \<lparr>cache = [(''k'', \<lparr>data = ''v'', timestamp = 0\<rparr>)],
         cacheStats = \<lparr>hits = 0, misses = 0, totalRequests = 0\<rparr>\<rparr>
      = (None, \<lparr>cache = [(''k'', \<lparr>data = ''v'', timestamp = 0\<rparr>)],
         cacheStats = \<lparr>hits = 0, misses = 1, totalRequests = 1\<rparr>\<rparr>)
   \<and> cacheSize (getCacheStats (snd (cache_lookup ''k'' 1800000
         \<lparr>cache = [(''k'', \<lparr>data = ''v'', timestamp = 0\<rparr>)],
          cacheStats = \<lparr>hits = 0, misses = 0, totalRequests = 0\<rparr>\<rparr>))) = 1"
  using lookup_leaves_table
    [of "''k''" 1800000
        "\<lparr>cache = [(''k'', \<lparr>data = ''v'', timestamp = 0\<rparr>)],
          cacheStats = \<lparr>hits = 0, misses = 0, totalRequests = 0\<rparr>\<rparr>"
        "\<lparr>data = ''v'', timestamp = 0\<rparr>"]
  by (simp add: CACHE_TTL_def cache_lookup_def getCachedData_def count_miss_def
      getCacheStats_def map_size_def cache_stats.defs)

subsection \<open>The counters\<close>

text \<open>
  Claim C1. After any sequence of whole operations (lookups, stores, sweeps, clears and
  requests to \<^verbatim>\<open>/api/data\<close>), from the initial state or from the state a clear leaves,
  \<open>hits + misses = totalRequests\<close>. Every lookup adds one to \<open>totalRequests\<close> and one to
  exactly one of \<open>hits\<close> and \<open>misses\<close>, and a clear sets the three counters to zero.
\<close>

theorem counters_add_up:
  "stats_consistent (run initial_state es)
   \<and> stats_consistent (run (step s Clear) es)
   \<and> totalRequests (cacheStats (snd (cache_lookup key now s))) = totalRequests (cacheStats s) + 1
   \<and> (if truthy (fst (cache_lookup key now s))
       then hits (cacheStats (snd (cache_lookup key now s))) = hits (cacheStats s) + 1
          \<and> misses (cacheStats (snd (cache_lookup key now s))) = misses (cacheStats s)
       else hits (cacheStats (snd (cache_lookup key now s))) = hits (cacheStats s)
          \<and> misses (cacheStats (snd (cache_lookup key now s))) = misses (cacheStats s) + 1)
   \<and> cacheStats (step s Clear) = \<lparr>hits = 0, misses = 0, totalRequests = 0\<rparr>"
proof -
  have "stats_consistent initial_state"
    by (simp add: stats_consistent_def initial_state_def)
  then have a: "stats_consistent (run initial_state es)"
    by (rule stats_consistent_run)
  have "stats_consistent (step s Clear)"
    by (simp add: stats_consistent_cleared)
  then have b: "stats_consistent (run (step s Clear) es)"
    by (rule stats_consistent_run)
  have c: "cacheStats (step s Clear) = \<lparr>hits = 0, misses = 0, totalRequests = 0\<rparr>"
    by (simp add: api_cache_clear_def)
  show ?thesis
    using a b c by (simp add: cache_lookup_def Let_def count_hit_def count_miss_def)
qed

theorem counters_add_up_witness:
  "stats_consistent (run initial_state
      [Request None (Some ''{}'') 0 1, Request None None 5 6, Get ''k'' 7, Set ''k'' ''v'' 8,
       Sweep 9, Get ''k'' 10])
   \<and> cacheStats (run initial_state
      [Request None (Some ''{}'') 0 1, Request None None 5 6, Get ''k'' 7, Set ''k'' ''v'' 8,
       Sweep 9, Get ''k'' 10])
      = \<lparr>hits = 2, misses = 2, totalRequests = 4\<rparr>"
  using counters_add_up
    [of "[Request None (Some ''{}'') 0 1, Request None None 5 6, Get ''k'' 7, Set ''k'' ''v'' 8,
          Sweep 9, Get ''k'' 10]" initial_state "''k''" 0]
  by (simp add: initial_state_def api_data_def refererBlocked_def getCachedData_def cacheKey_def
      load_and_store_def setCachedData_def count_hit_def count_miss_def cache_lookup_def
      clearExpiredCache_def CACHE_TTL_def)

text \<open>
  Claim C3. \<^verbatim>\<open>POST /api/cache/clear\<close> leaves an empty table and the three counters at zero,
  and answers with the number of entries the table had. It is one operation of a run:
  whatever comes after it in a run starts from the cleared state, so no operation sees
  a table cleared in part or counters reset in part.
\<close>

theorem clear_empties_and_resets:
  "cache (fst (api_cache_clear s)) = []
   \<and> cacheStats (fst (api_cache_clear s)) = \<lparr>hits = 0, misses = 0, totalRequests = 0\<rparr>
   \<and> snd (api_cache_clear s) = length (cache s)
   \<and> getCacheStats (fst (api_cache_clear s))
       = \<lparr>hits = 0, misses = 0, totalRequests = 0, hitRate = ''0%'', cacheSize = 0\<rparr>
   \<and> run s (es @ Clear # es') = run (fst (api_cache_clear (run s es))) es'"
  by (simp add: run_append)
    (simp add: api_cache_clear_def map_size_def getCacheStats_def cache_stats.defs)

theorem clear_empties_and_resets_witness:
  "api_cache_clear
     \<lparr>cache = [(''k1'', \<lparr>data = ''a'', timestamp = 0\<rparr>), (''k2'', \<lparr>data = ''b'', timestamp = 1\<rparr>)],
      cacheStats = \<lparr>hits = 3, misses = 2, totalRequests = 5\<rparr>\<rparr>
   = (\<lparr>cache = [], cacheStats = \<lparr>hits = 0, misses = 0, totalRequests = 0\<rparr>\<rparr>, 2)"
  using clear_empties_and_resets
    [of "\<lparr>cache = [(''k1'', \<lparr>data = ''a'', timestamp = 0\<rparr>), (''k2'', \<lparr>data = ''b'', timestamp = 1\<rparr>)],
          cacheStats = \<lparr>hits = 3, misses = 2, totalRequests = 5\<rparr>\<rparr>" "[]" "[]"]
  by (simp add: api_cache_clear_def map_size_def)

subsection \<open>The statistics report\<close>

text \<open>
  Claim C5. \<open>getCacheStats\<close> reports \<^verbatim>\<open>'0%'\<close> when \<open>totalRequests\<close> is zero, without dividing.
  Otherwise the hit rate is a number with two decimals and a percent sign, and that
  number is \<open>hits / totalRequests\<close> as a percentage: it differs from \<open>100 * hits /
  totalRequests\<close> by at most half a hundredth, for the two decimals, and a relative
  \<open>2 ^ -51\<close>, for the two roundings of the double arithmetic. The reported size is the
  number of entries of the table: the unexpired ones and the expired ones that no
  sweep has removed yet, at whatever time one looks. The three counters are reported
  as they are.
\<close>

theorem stats_report_hit_rate:
  "(totalRequests (cacheStats s) = 0 \<longrightarrow> hitRate (getCacheStats s) = ''0%'')
   \<and> (0 < totalRequests (cacheStats s) \<longrightarrow>
        (\<exists>n. hitRate (getCacheStats s) = two_decimals n @ ''%''
           \<and> \<bar>rat_of_nat n / 100
                - 100 * rat_of_nat (hits (cacheStats s)) / rat_of_nat (totalRequests (cacheStats s))\<bar>
               \<le> 1 / 200
                 + 100 * rat_of_nat (hits (cacheStats s)) / rat_of_nat (totalRequests (cacheStats s)) / 2 ^ 51))
   \<and> cacheSize (getCacheStats s) = length (cache s)
   \<and> cacheSize (getCacheStats s)
       = length (filter (\<lambda>(key, item). now - timestamp item < CACHE_TTL) (cache s))
       + length (filter (\<lambda>(key, item). \<not> now - timestamp item < CACHE_TTL) (cache s))
   \<and> hits (getCacheStats s) = hits (cacheStats s)
   \<and> misses (getCacheStats s) = misses (cacheStats s)
   \<and> totalRequests (getCacheStats s) = totalRequests (cacheStats s)"
proof -
  let ?h = "hits (cacheStats s)" and ?t = "totalRequests (cacheStats s)"
  let ?d = "num_mul (num_div (rat_of_nat ?h) (rat_of_nat ?t)) 100"
  let ?n = "nat \<lfloor>?d * 100 + 1 / 2\<rfloor>"
  have zero: "hitRate (getCacheStats s) = ''0%''" if "?t = 0"
    using that by (simp add: getCacheStats_def cache_stats.defs)
  have rate: "\<exists>n. hitRate (getCacheStats s) = two_decimals n @ ''%''
           \<and> \<bar>rat_of_nat n / 100 - 100 * rat_of_nat ?h / rat_of_nat ?t\<bar>
               \<le> 1 / 200 + 100 * rat_of_nat ?h / rat_of_nat ?t / 2 ^ 51" if "0 < ?t"
  proof -
    from hit_rate_double [OF that, of ?h]
    have d0: "0 \<le> ?d" and ed: "\<bar>?d - 100 * rat_of_nat ?h / rat_of_nat ?t\<bar>
           \<le> 100 * rat_of_nat ?h / rat_of_nat ?t / 2 ^ 51"
      by simp_all
    have str: "hitRate (getCacheStats s) = two_decimals ?n @ ''%''"
      using that by (simp add: getCacheStats_def cache_stats.defs toFixed_two [OF d0])
    have "\<bar>rat_of_nat ?n / 100 - 100 * rat_of_nat ?h / rat_of_nat ?t\<bar>
           \<le> \<bar>rat_of_nat ?n / 100 - ?d\<bar> + \<bar>?d - 100 * rat_of_nat ?h / rat_of_nat ?t\<bar>"
      unfolding abs_if by (auto; linarith)
    with nearest_hundredths [OF d0] ed
    have "\<bar>rat_of_nat ?n / 100 - 100 * rat_of_nat ?h / rat_of_nat ?t\<bar>
           \<le> 1 / 200 + 100 * rat_of_nat ?h / rat_of_nat ?t / 2 ^ 51"
      by linarith
    with str show ?thesis by blast
  qed
  have len: "length (cache s)
        = length (filter (\<lambda>(key, item). now - timestamp item < CACHE_TTL) (cache s))
        + length (filter (\<lambda>(key, item). \<not> now - timestamp item < CACHE_TTL) (cache s))"
    unfolding case_prod_beta
    using sum_length_filter_compl [of "\<lambda>x. now - timestamp (snd x) < CACHE_TTL" "cache s"]
    by simp
  have size: "cacheSize (getCacheStats s) = length (cache s)"
    by (simp add: getCacheStats_def map_size_def cache_stats.defs)
  have fields: "hits (getCacheStats s) = hits (cacheStats s)"
    "misses (getCacheStats s) = misses (cacheStats s)"
    "totalRequests (getCacheStats s) = totalRequests (cacheStats s)"
    by (simp_all add: getCacheStats_def cache_stats.defs)
  from zero rate size len fields show ?thesis
    by (metis (no_types, lifting))
qed

theorem stats_report_hit_rate_witness:
  "0 < totalRequests (cacheStats example_busy_state)
   \<and> getCacheStats example_busy_state
       = \<lparr>hits = 23, misses = 137, totalRequests = 160, hitRate = ''14.37%'', cacheSize = 1\<rparr>
   \<and> two_decimals 1437 = ''14.37''
   \<and> \<bar>rat_of_nat 1437 / 100 - 100 * rat_of_nat 23 / rat_of_nat 160\<bar>
       \<le> 1 / 200 + 100 * rat_of_nat 23 / rat_of_nat 160 / 2 ^ 51
   \<and> totalRequests (cacheStats initial_state) = 0
   \<and> hitRate (getCacheStats initial_state) = ''0%''
   \<and> num_mul (num_div 2 27) 100 = rat_of_int 8339999309945362 * 2 powi (2 - 52)
   \<and> hitRate (getCacheStats \<lparr>cache = [], cacheStats = \<lparr>hits = 2, misses = 25, totalRequests = 27\<rparr>\<rparr>)
       = ''7.41%''"
proof -
  have h1: "0 < totalRequests (cacheStats example_busy_state)"
    by (simp add: example_busy_state_def)
  have h2: "totalRequests (cacheStats initial_state) = 0"
    by (simp add: initial_state_def)
  have rate: "hitRate (getCacheStats example_busy_state) = ''14.37%''"
    using hit_rate_23_160 by (simp add: example_busy_state_def getCacheStats_def cache_stats.defs)
  from stats_report_hit_rate [of example_busy_state 0]
  have rest: "cacheSize (getCacheStats example_busy_state) = length (cache example_busy_state)"
    "hits (getCacheStats example_busy_state) = hits (cacheStats example_busy_state)"
    "misses (getCacheStats example_busy_state) = misses (cacheStats example_busy_state)"
    "totalRequests (getCacheStats example_busy_state) = totalRequests (cacheStats example_busy_state)"
    by blast+
  have report: "getCacheStats example_busy_state
       = \<lparr>hits = 23, misses = 137, totalRequests = 160, hitRate = ''14.37%'', cacheSize = 1\<rparr>"
    using rate rest by (cases "getCacheStats example_busy_state") (simp add: example_busy_state_def)
  have digits: "two_decimals 1437 = ''14.37''"
    by (simp add: two_decimals_def show_nat.simps digit_char_def)
  have close: "\<bar>rat_of_nat 1437 / 100 - 100 * rat_of_nat 23 / rat_of_nat 160\<bar>
       \<le> 1 / 200 + 100 * rat_of_nat 23 / rat_of_nat 160 / 2 ^ 51"
    by simp
  from stats_report_hit_rate [of initial_state 0] h2
  have zero: "hitRate (getCacheStats initial_state) = ''0%''"
    by blast
  have tie: "hitRate (getCacheStats \<lparr>cache = [], cacheStats = \<lparr>hits = 2, misses = 25, totalRequests = 27\<rparr>\<rparr>)
       = ''7.41%''"
    using hit_rate_2_27 by (simp add: getCacheStats_def cache_stats.defs)
  from h1 report digits close h2 zero product_2_27 tie show ?thesis
    by (intro conjI)
qed

subsection \<open>The example trace\<close>

text \<open>
  Claim C7. From the empty cache with zeroed counters, \<^verbatim>\<open>setCachedData("k1", "a")\<close>,
  \<^verbatim>\<open>setCachedData("k2", "b")\<close>, \<^verbatim>\<open>getCachedData("k1")\<close> while the entry is younger than the TTL,
  \<^verbatim>\<open>getCachedData("k3")\<close>: the reads give \<^verbatim>\<open>"a"\<close> and \<^verbatim>\<open>null\<close>, and \<open>getCacheStats\<close> then reports
  hits 0, misses 0, totalRequests 0, hitRate \<^verbatim>\<open>'0%'\<close>, size 2, because \<^verbatim>\<open>getCachedData\<close> counts
  nothing. Hits and misses are counted by \<^verbatim>\<open>GET /api/data\<close> alone, for its own key: from
  the same start, a request that misses and loads the text \<^verbatim>\<open>"a"\<close>, then a request within
  the TTL, are both served \<^verbatim>\<open>"a"\<close> and leave hits 1, misses 1, totalRequests 2, hitRate
  \<^verbatim>\<open>'50.00%'\<close>, size 1.
\<close>

theorem example_trace_on_the_code:
  assumes "t3 - t1 < CACHE_TTL" and "t2' - t1' < CACHE_TTL"
  shows
    "getCachedData ''k1'' t3 (setCachedData ''k2'' ''b'' t2 (setCachedData ''k1'' ''a'' t1 initial_state))
       = Some ''a''
     \<and> getCachedData ''k3'' t4 (setCachedData ''k2'' ''b'' t2 (setCachedData ''k1'' ''a'' t1 initial_state))
       = None
     \<and> getCacheStats (setCachedData ''k2'' ''b'' t2 (setCachedData ''k1'' ''a'' t1 initial_state))
       = \<lparr>hits = 0, misses = 0, totalRequests = 0, hitRate = ''0%'', cacheSize = 2\<rparr>
     \<and> api_data None (Some ''a'') t0' t1' initial_state
       = (setCachedData cacheKey ''a'' t1' (count_miss initial_state), Served ''a'')
     \<and> snd (api_data None loaded t2' t3' (fst (api_data None (Some ''a'') t0' t1' initial_state)))
       = Served ''a''
     \<and> getCacheStats (fst (api_data None loaded t2' t3' (fst (api_data None (Some ''a'') t0' t1' initial_state))))
       = \<lparr>hits = 1, misses = 1, totalRequests = 2, hitRate = ''50.00%'', cacheSize = 1\<rparr>"
proof -
  let ?s2 = "setCachedData ''k2'' ''b'' t2 (setCachedData ''k1'' ''a'' t1 initial_state)"
  have cache2: "cache ?s2 = [(''k1'', \<lparr>data = ''a'', timestamp = t1\<rparr>), (''k2'', \<lparr>data = ''b'', timestamp = t2\<rparr>)]"
    by (simp add: setCachedData_def initial_state_def)
  have stats2: "cacheStats ?s2 = \<lparr>hits = 0, misses = 0, totalRequests = 0\<rparr>"
    by (simp add: initial_state_def)
  have get1: "getCachedData ''k1'' t3 ?s2 = Some ''a''"
    using assms(1) by (simp add: getCachedData_def cache2)
  have get3: "getCachedData ''k3'' t4 ?s2 = None"
    by (simp add: getCachedData_def cache2)
  have report2: "getCacheStats ?s2
      = \<lparr>hits = 0, misses = 0, totalRequests = 0, hitRate = ''0%'', cacheSize = 2\<rparr>"
    by (simp add: getCacheStats_def initial_state_def setCachedData_def map_size_def cache_stats.defs)
  let ?r1 = "setCachedData cacheKey ''a'' t1' (count_miss initial_state)"
  have first: "api_data None (Some ''a'') t0' t1' initial_state = (?r1, Served ''a'')"
    by (simp add: api_data_def refererBlocked_def getCachedData_def initial_state_def load_and_store_def)
  have hit: "getCachedData cacheKey t2' ?r1 = Some ''a''"
    using assms(2) by (simp add: getCachedData_setCachedData)
  have second: "api_data None loaded t2' t3' ?r1 = (count_hit ?r1, Served ''a'')"
    by (simp add: api_data_def refererBlocked_def hit)
  have cache3: "cache ?r1 = [(cacheKey, \<lparr>data = ''a'', timestamp = t1'\<rparr>)]"
    by (simp add: setCachedData_def initial_state_def)
  have stats3: "cacheStats (count_hit ?r1) = \<lparr>hits = 1, misses = 1, totalRequests = 2\<rparr>"
    by (simp add: count_hit_def count_miss_def initial_state_def)
  have report3: "getCacheStats (count_hit ?r1)
      = \<lparr>hits = 1, misses = 1, totalRequests = 2, hitRate = ''50.00%'', cacheSize = 1\<rparr>"
    using hit_rate_1_2
    by (simp add: getCacheStats_def stats3 cache3 map_size_def cache_stats.defs)
  from get1 get3 report2 first second report3 show ?thesis
    by (simp only: fst_conv snd_conv simp_thms)
qed

theorem example_trace_on_the_code_witness:
  "(2 :: int) - 0 < CACHE_TTL \<and> (1000 :: int) - 5 < CACHE_TTL
   \<and> getCacheStats (setCachedData ''k2'' ''b'' 1 (setCachedData ''k1'' ''a'' 0 initial_state))
       = \<lparr>hits = 0, misses = 0, totalRequests = 0, hitRate = ''0%'', cacheSize = 2\<rparr>
   \<and> getCacheStats (fst (api_data None (Some ''a'') 1000 1001
                        (fst (api_data None (Some ''a'') 0 5 initial_state))))
       = \<lparr>hits = 1, misses = 1, totalRequests = 2, hitRate = ''50.00%'', cacheSize = 1\<rparr>"
proof -
  have h1: "(2 :: int) - 0 < CACHE_TTL" by (simp add: CACHE_TTL_def)
  have h2: "(1000 :: int) - 5 < CACHE_TTL" by (simp add: CACHE_TTL_def)
  from h1 h2 example_trace_on_the_code [OF h1 h2, of 1 3 0 "Some ''a''" 1001]
  show ?thesis by blast
qed

text \<open>
  Claim C7 as it was stated has the report after the trace at hits 1, misses 1,
  totalRequests 2, hitRate \<^verbatim>\<open>'50.00%'\<close>. With the stores at times 0 and 1 and the reads at
  times 2 and 3, the report is not that one.
\<close>

theorem example_trace_counts_nothing:
  "getCachedData ''k1'' 2 (setCachedData ''k2'' ''b'' 1 (setCachedData ''k1'' ''a'' 0 initial_state)) = Some ''a''
   \<and> getCachedData ''k3'' 3 (setCachedData ''k2'' ''b'' 1 (setCachedData ''k1'' ''a'' 0 initial_state)) = None
   \<and> getCacheStats (setCachedData ''k2'' ''b'' 1 (setCachedData ''k1'' ''a'' 0 initial_state))
       = \<lparr>hits = 0, misses = 0, totalRequests = 0, hitRate = ''0%'', cacheSize = 2\<rparr>
   \<and> getCacheStats (setCachedData ''k2'' ''b'' 1 (setCachedData ''k1'' ''a'' 0 initial_state))
       \<noteq> \<lparr>hits = 1, misses = 1, totalRequests = 2, hitRate = ''50.00%'', cacheSize = 2\<rparr>"
  by (simp add: getCachedData_def setCachedData_def initial_state_def CACHE_TTL_def
      getCacheStats_def cache_stats.defs map_size_def)

subsection \<open>A store, then a read\<close>

text \<open>
  Claim C6. \<open>setCachedData\<close> puts \<^verbatim>\<open>{data, timestamp: now}\<close> under the key, whatever was
  there and however old, and leaves the other entries and the counters as they are.
  \<open>getCachedData\<close> of the key, while the entry is younger than the TTL, gives the value
  back; it counts nothing. A hit is counted by \<^verbatim>\<open>GET /api/data\<close> alone, for its own key:
  when a non-empty text is stored there, a request within the TTL that its Referer
  does not block is served that text and counts one hit.
\<close>

theorem store_then_read:
  "map_get (cache (setCachedData key dat now s)) key'
     = (if key' = key then Some \<lparr>data = dat, timestamp = now\<rparr> else map_get (cache s) key')
   \<and> cacheStats (setCachedData key dat now s) = cacheStats s
   \<and> (now' - now < CACHE_TTL \<longrightarrow> getCachedData key now' (setCachedData key dat now s) = Some dat)
   \<and> (now' - now < CACHE_TTL \<and> dat \<noteq> [] \<and> \<not> refererBlocked referer \<longrightarrow>
        api_data referer loaded now' now'' (setCachedData cacheKey dat now s)
          = (count_hit (setCachedData cacheKey dat now s), Served dat))"
proof -
  have served: "api_data referer loaded now' now'' (setCachedData cacheKey dat now s)
          = (count_hit (setCachedData cacheKey dat now s), Served dat)"
    if "now' - now < CACHE_TTL" "dat \<noteq> []" "\<not> refererBlocked referer"
    using that by (simp add: api_data_def getCachedData_setCachedData)
  then show ?thesis
    by (simp add: setCachedData_entry getCachedData_setCachedData)
qed

theorem store_then_read_witness:
  "(1000 :: int) - 0 < CACHE_TTL \<and> ''{}'' \<noteq> [] \<and> \<not> refererBlocked None
   \<and> getCachedData cacheKey 1000 (setCachedData cacheKey ''{}'' 0 initial_state) = Some ''{}''
   \<and> api_data None None 1000 1000 (setCachedData cacheKey ''{}'' 0 initial_state)
       = (count_hit (setCachedData cacheKey ''{}'' 0 initial_state), Served ''{}'')
   \<and> cacheStats (fst (api_data None None 1000 1000 (setCachedData cacheKey ''{}'' 0 initial_state)))
       = \<lparr>hits = 1, misses = 0, totalRequests = 1\<rparr>"
proof -
  have h1: "(1000 :: int) - 0 < CACHE_TTL" by (simp add: CACHE_TTL_def)
  have h2: "''{}'' \<noteq> []" by simp
  have h3: "\<not> refererBlocked None" by (simp add: refererBlocked_def)
  from store_then_read [of cacheKey "''{}''" 0 initial_state cacheKey 1000 None None 1000] h1 h2 h3
  have a: "getCachedData cacheKey 1000 (setCachedData cacheKey ''{}'' 0 initial_state) = Some ''{}''"
    and b: "api_data None None 1000 1000 (setCachedData cacheKey ''{}'' 0 initial_state)
       = (count_hit (setCachedData cacheKey ''{}'' 0 initial_state), Served ''{}'')"
    by simp_all
  have c: "cacheStats (fst (api_data None None 1000 1000 (setCachedData cacheKey ''{}'' 0 initial_state)))
       = \<lparr>hits = 1, misses = 0, totalRequests = 1\<rparr>"
    unfolding b by (simp add: count_hit_def initial_state_def)
  from h1 h2 h3 a b c show ?thesis by (intro conjI)
qed

text \<open>
  Claim C6 as it was stated has the read after the store count a hit, for every key.
  With \<^verbatim>\<open>"v"\<close> stored under \<^verbatim>\<open>"k"\<close> at time 0 and read at time 1, the value comes back and
  the counters are still at zero.
\<close>

theorem store_then_read_counts_nothing:
  "getCachedData ''k'' 1 (setCachedData ''k'' ''v'' 0 initial_state) = Some ''v''
   \<and> (1 :: int) - 0 < CACHE_TTL
   \<and> cacheStats (setCachedData ''k'' ''v'' 0 initial_state) = \<lparr>hits = 0, misses = 0, totalRequests = 0\<rparr>
   \<and> hits (getCacheStats (setCachedData ''k'' ''v'' 0 initial_state)) = 0"
  by (simp add: getCachedData_setCachedData CACHE_TTL_def initial_state_def getCacheStats_def
      cache_stats.defs)

subsection \<open>A load that fails\<close>

text \<open>
  Claim C8. When a request to \<^verbatim>\<open>/api/data\<close> misses the cache and \<^verbatim>\<open>readFileSync\<close> throws,
  the handler answers 500 having counted the miss and stored nothing: the table is as
  it was. From then on, through any operations that store nothing (lookups, sweeps,
  clears, requests whose load fails again), every lookup of the key at that time or
  later is a miss. The handler answers 500 only in that case, a miss whose load
  failed: no cache operation fails by itself.
\<close>

theorem failed_load_stores_nothing:
  assumes "\<not> refererBlocked referer"
    and "\<not> truthy (getCachedData cacheKey now s)"
    and "list_all stores_nothing es"
    and "now \<le> now''"
  shows "api_data referer None now now' s = (count_miss s, LoadFailed)
       \<and> cache (fst (api_data referer None now now' s)) = cache s
       \<and> \<not> truthy (fst (cache_lookup cacheKey now'' (run (fst (api_data referer None now now' s)) es)))
       \<and> snd (cache_lookup cacheKey now'' (run (fst (api_data referer None now now' s)) es))
           = count_miss (run (fst (api_data referer None now now' s)) es)
       \<and> (snd (api_data r loaded n n' s0) = LoadFailed
            \<longleftrightarrow> \<not> refererBlocked r \<and> \<not> truthy (getCachedData cacheKey n s0) \<and> loaded = None)"
proof -
  let ?s1 = "fst (api_data referer None now now' s)"
  have res: "api_data referer None now now' s = (count_miss s, LoadFailed)"
    using assms(1,2) by (simp add: api_data_def Let_def)
  have same: "cache ?s1 = cache s"
    by (rule cache_api_data_failed_load)
  have "\<not> truthy (getCachedData cacheKey now ?s1)"
    using assms(2) getCachedData_cong [OF same, of cacheKey now] by simp
  from miss_stays_miss [OF this assms(4) map_get_run_stores_nothing [OF assms(3)]]
  have later: "\<not> truthy (getCachedData cacheKey now'' (run ?s1 es))" .
  then have look: "cache_lookup cacheKey now'' (run ?s1 es)
      = (getCachedData cacheKey now'' (run ?s1 es), count_miss (run ?s1 es))"
    by (simp add: cache_lookup_def)
  have fails: "snd (api_data r loaded n n' s0) = LoadFailed
            \<longleftrightarrow> \<not> refererBlocked r \<and> \<not> truthy (getCachedData cacheKey n s0) \<and> loaded = None"
    by (cases loaded) (simp_all add: api_data_def Let_def load_and_store_def)
  have c3: "\<not> truthy (fst (cache_lookup cacheKey now'' (run ?s1 es)))"
    using later unfolding look by simp
  have c4: "snd (cache_lookup cacheKey now'' (run ?s1 es)) = count_miss (run ?s1 es)"
    unfolding look by simp
  from res same c3 c4 fails show ?thesis
    by (intro conjI)
qed

theorem failed_load_stores_nothing_witness:
  "\<not> refererBlocked (Some ''http://localhost:3000/index.html'')
   \<and> \<not> truthy (getCachedData cacheKey 1800000 example_state)
   \<and> list_all stores_nothing [Get cacheKey 1800001, Request None None 1800002 1800003,
             Request (Some ''http://evil.example/'') (Some ''{}'') 1800003 1800003, Sweep 1800004]
   \<and> (1800000 :: int) \<le> 1800005
   \<and> api_data (Some ''http://localhost:3000/index.html'') None 1800000 1800000 example_state
       = (count_miss example_state, LoadFailed)
   \<and> \<not> truthy (fst (cache_lookup cacheKey 1800005
         (run (fst (api_data (Some ''http://localhost:3000/index.html'') None 1800000 1800000 example_state))
            [Get cacheKey 1800001, Request None None 1800002 1800003,
             Request (Some ''http://evil.example/'') (Some ''{}'') 1800003 1800003, Sweep 1800004])))"
proof -
  have h1: "\<not> refererBlocked (Some ''http://localhost:3000/index.html'')"
    by (simp add: refererBlocked_def allowedOrigins_def)
  have h2: "\<not> truthy (getCachedData cacheKey 1800000 example_state)"
    by (simp add: getCachedData_def example_state_def cacheKey_def CACHE_TTL_def)
  have h3: "list_all stores_nothing [Get cacheKey 1800001, Request None None 1800002 1800003,
             Request (Some ''http://evil.example/'') (Some ''{}'') 1800003 1800003, Sweep 1800004]"
    by (simp add: refererBlocked_def allowedOrigins_def)
  have h4: "(1800000 :: int) \<le> 1800005"
    by simp
  from h1 h2 h3 h4 failed_load_stores_nothing [OF h1 h2 h3 h4, of 1800000 None None 0 0 initial_state]
  show ?thesis by blast
qed

subsection \<open>The empty payload\<close>

text \<open>
  Claim C2. A lookup is to give the stored value and count a hit when the key has an
  entry younger than the TTL, and to give \<^verbatim>\<open>null\<close> and count a miss otherwise. Lemma
  \<open>cache_lookup_cases\<close> is what the code does: exactly that, except for an entry
  whose data is the empty string. \<^verbatim>\<open>if (data)\<close> takes the empty string for \<^verbatim>\<open>null\<close>: when the
  data file is empty, the first request caches \<^verbatim>\<open>''\<close> at time 0, and a second request one
  second later finds the entry, unexpired, and counts a miss (and reads the file
  again): two requests, no hit.
\<close>

theorem empty_payload_lookup_counts_miss:
  "map_get (cache (fst (api_data None (Some []) 0 0 initial_state))) cacheKey
     = Some \<lparr>data = [], timestamp = 0\<rparr>
   \<and> getCachedData cacheKey 1000 (fst (api_data None (Some []) 0 0 initial_state)) = Some []
   \<and> cache_lookup cacheKey 1000 (fst (api_data None (Some []) 0 0 initial_state))
       = (Some [], count_miss (fst (api_data None (Some []) 0 0 initial_state)))
   \<and> cacheStats (fst (api_data None (Some []) 1000 1000 (fst (api_data None (Some []) 0 0 initial_state))))
       = \<lparr>hits = 0, misses = 2, totalRequests = 2\<rparr>"
proof -
  let ?s1 = "fst (api_data None (Some []) 0 0 initial_state)"
  have s1: "?s1 = \<lparr>cache = [(cacheKey, \<lparr>data = [], timestamp = 0\<rparr>)],
                    cacheStats = \<lparr>hits = 0, misses = 1, totalRequests = 1\<rparr>\<rparr>"
    by (simp add: api_data_def refererBlocked_def getCachedData_def initial_state_def
        load_and_store_def setCachedData_def count_miss_def)
  have get: "getCachedData cacheKey 1000 ?s1 = Some []"
    unfolding s1 by (simp add: getCachedData_def CACHE_TTL_def)
  have look: "cache_lookup cacheKey 1000 ?s1 = (Some [], count_miss ?s1)"
    by (simp add: cache_lookup_def get Let_def)
  have again: "cacheStats (fst (api_data None (Some []) 1000 1000 ?s1))
      = \<lparr>hits = 0, misses = 2, totalRequests = 2\<rparr>"
    using get unfolding s1
    by (simp add: api_data_def refererBlocked_def load_and_store_def count_miss_def)
  have entry: "map_get (cache ?s1) cacheKey = Some \<lparr>data = [], timestamp = 0\<rparr>"
    unfolding s1 by simp
  from entry get look again show ?thesis
    by (intro conjI)
qed

end
